theory Spec2Isabelle
  imports Complex_Main "HOL-Library.Sublist" "HOL-Library.Char_ord" "HOL-Library.List_Lexorder"
    "HOL-Library.Product_Lexorder"
begin

section \<open>Regular expressions as the file-name grammar uses them\<close>

text \<open>
  Both entry points (\<^verbatim>\<open>combine_freq.py\<close> and \<^verbatim>\<open>freq-filter-dataviz.py\<close>) carry the
  same \<^verbatim>\<open>parse_filename\<close>: a compiled pattern and \<^verbatim>\<open>pattern.match(filename)\<close>.
  Python's \<^verbatim>\<open>re\<close> is a backtracking matcher, so the model is the classical list of
  successes: \<open>run r (s, caps)\<close> lists, in the order the matcher tries them, every way
  \<open>r\<close> can consume a prefix of \<open>s\<close>, each with the input left over and the named groups
  captured so far. The match the program sees is the first element of that list.

  File names are byte strings (\<open>string\<close>). The class \<^verbatim>\<open>\d\<close> is modelled on the ten
  ASCII digits; \<^verbatim>\<open>.\<close> is every character but the line feed; \<^verbatim>\<open>[^c]\<close> is every
  character but \<open>c\<close>.
\<close>

datatype cclass = Digit | NotChar char | AnyChar

definition isdigit :: "char \<Rightarrow> bool" where
  "isdigit c = (c \<in> set ''0123456789'')"

fun cmatch :: "cclass \<Rightarrow> char \<Rightarrow> bool" where
  "cmatch Digit c = isdigit c"
| "cmatch (NotChar x) c = (c \<noteq> x)"
| "cmatch AnyChar c = (c \<noteq> CHR 0x0A)"

datatype regex =
    Lit string
  | Rep nat cclass
  | Plus cclass
  | PlusLazy cclass
  | Group string regex
  | Seq regex regex

type_synonym groupdict = "(string \<times> string) list"

type_synonym mstate = "string \<times> groupdict"

fun run :: "regex \<Rightarrow> mstate \<Rightarrow> mstate list" where
  "run (Lit l) (s, c) = (if prefix l s then [(drop (length l) s, c)] else [])"
| "run (Rep n cl) (s, c) =
     (if n \<le> length s \<and> list_all (cmatch cl) (take n s) then [(drop n s, c)] else [])"
| "run (Plus cl) (s, c) =
     map (\<lambda>k. (drop k s, c)) (rev [1 ..< Suc (length (takeWhile (cmatch cl) s))])"
| "run (PlusLazy cl) (s, c) =
     map (\<lambda>k. (drop k s, c)) [1 ..< Suc (length (takeWhile (cmatch cl) s))]"
| "run (Group name r) (s, c) =
     map (\<lambda>(s', c'). (s', c' @ [(name, take (length s - length s') s)])) (run r (s, c))"
| "run (Seq r1 r2) st = concat (map (run r2) (run r1 st))"

definition re_match :: "regex \<Rightarrow> string \<Rightarrow> groupdict option" where
  "re_match r s = (case run r (s, []) of [] \<Rightarrow> None | (rest, caps) # _ \<Rightarrow> Some caps)"

fun seqs :: "regex list \<Rightarrow> regex" where
  "seqs [] = Lit []"
| "seqs [r] = r"
| "seqs (r # rs) = Seq r (seqs rs)"

subsection \<open>The nine-field pattern and \<^verbatim>\<open>parse_filename\<close>\<close>

definition date_re :: regex where
  "date_re = seqs [Rep 4 Digit, Lit ''-'', Rep 2 Digit, Lit ''-'', Rep 2 Digit]"

definition tail_re :: regex where
  "tail_re = seqs
     [Lit ''-config_'',
      Group ''device_degradation'' (Plus (NotChar CHR ''_'')), Lit ''_'',
      Group ''frequency_range'' (Plus (NotChar CHR ''_'')), Lit ''_'',
      Group ''datapoint_capture'' (Plus (NotChar CHR ''_'')), Lit ''_'',
      Group ''voltage_offset'' (Plus (NotChar CHR ''_'')), Lit ''_'',
      Group ''voltage_amplitude'' (Plus (NotChar CHR ''V'')), Lit ''Vpk'']"

definition pattern :: regex where
  "pattern = seqs
     [Group ''date'' date_re, Lit ''_'',
      Group ''device_chemistry'' (Plus (NotChar CHR ''-'')), Lit ''-'',
      Group ''device_pixel'' (Plus (NotChar CHR ''_'')), Lit ''_'',
      Group ''device_configuration'' (PlusLazy AnyChar),
      tail_re]"

definition parse_filename :: "string \<Rightarrow> groupdict option" where
  "parse_filename filename = re_match pattern filename"

section \<open>Errors and dictionaries\<close>

text \<open>
  Every exception the modelled code can raise is a value: a computation returns
  \<open>error + 'a\<close> with \<open>Inl\<close> the exception. \<open>LoadError\<close> stands for whatever
  \<^verbatim>\<open>load_data\<close> raises on a file it cannot read or parse.
\<close>

datatype error = KeyError | ValueError | LoadError

definition ebind :: "error + 'a \<Rightarrow> ('a \<Rightarrow> error + 'b) \<Rightarrow> error + 'b" where
  "ebind m f = (case m of Inl e \<Rightarrow> Inl e | Inr v \<Rightarrow> f v)"

fun emap :: "('a \<Rightarrow> error + 'b) \<Rightarrow> 'a list \<Rightarrow> error + 'b list" where
  "emap f [] = Inr []"
| "emap f (x # xs) =
     (case f x of Inl e \<Rightarrow> Inl e
      | Inr y \<Rightarrow> (case emap f xs of Inl e \<Rightarrow> Inl e | Inr ys \<Rightarrow> Inr (y # ys)))"

text \<open>
  A Python \<^verbatim>\<open>dict\<close> keeps insertion order, so it is an association list with distinct
  keys: \<open>lookup\<close> is \<^verbatim>\<open>d[k]\<close>, \<open>dict_set\<close> is \<^verbatim>\<open>d[k] = v\<close>.
\<close>

definition lookup :: "('k \<times> 'v) list \<Rightarrow> 'k \<Rightarrow> error + 'v" where
  "lookup d k = (case map_of d k of None \<Rightarrow> Inl KeyError | Some v \<Rightarrow> Inr v)"

fun dict_set :: "'k \<Rightarrow> 'v \<Rightarrow> ('k \<times> 'v) list \<Rightarrow> ('k \<times> 'v) list" where
  "dict_set k v [] = [(k, v)]"
| "dict_set k v ((k', v') # d) = (if k' = k then (k, v) # d else (k', v') # dict_set k v d)"

section \<open>Integers embedded in tokens\<close>

text \<open>
  \<^verbatim>\<open>re.findall(r"\d+", s)\<close>: scanning from the left, a digit starts a match that
  takes the whole run of digits, and the scan resumes after it; any other character is
  skipped. \<open>py_int\<close> is \<^verbatim>\<open>int\<close> on such a run of digits.
\<close>

function findall_digits :: "string \<Rightarrow> string list" where
  "findall_digits [] = []"
| "findall_digits (x # xs) =
     (if isdigit x
      then takeWhile isdigit (x # xs) # findall_digits (dropWhile isdigit (x # xs))
      else findall_digits xs)"
  by pat_completeness auto
termination
  by (relation "measure length") (auto simp: length_dropWhile_le less_Suc_eq_le)

definition digit_val :: "char \<Rightarrow> nat" where
  "digit_val c = of_char c - 48"

definition py_int :: "string \<Rightarrow> nat" where
  "py_int ds = foldl (\<lambda>a c. 10 * a + digit_val c) 0 ds"

definition sum_datapoint_capture :: "string list \<Rightarrow> nat" where
  "sum_datapoint_capture datapoint_captures =
     foldl (\<lambda>total dc. total + sum_list (map py_int (findall_digits dc))) 0 datapoint_captures"

definition find_highest_degradation :: "string list \<Rightarrow> nat" where
  "find_highest_degradation device_degradations =
     foldl (\<lambda>highest dd.
              (case findall_digits dd of
                 [] \<Rightarrow> highest
               | n # ns \<Rightarrow> max highest (foldl max (py_int n) (map py_int ns))))
           0 device_degradations"

text \<open>The decimal text of a non-negative integer, as an f-string prints it.\<close>

definition digit_char :: "nat \<Rightarrow> char" where
  "digit_char d = ''0123456789'' ! d"

function str_nat :: "nat \<Rightarrow> string" where
  "str_nat n = (if n < 10 then [digit_char n] else str_nat (n div 10) @ [digit_char (n mod 10)])"
  by pat_completeness auto
termination
  by (relation "measure id") auto

declare str_nat.simps [simp del]

section \<open>Dates\<close>

text \<open>
  \<^verbatim>\<open>datetime.strptime(x, "%Y-%m-%d")\<close>. The library turns the format into the pattern
  \<^verbatim>\<open>(\d\d\d\d)-(1[0-2]|0[1-9]|[1-9])-(3[0-1]|[1-2]\d|0[1-9]|[1-9]| [1-9])\<close>, matches it
  at the start of the string, raises \<^verbatim>\<open>ValueError\<close> when it does not match or when
  input is left over, and then builds the date, which raises \<^verbatim>\<open>ValueError\<close> for a
  year below 1 or a day the month does not have. A month or day token is followed by
  a hyphen or by the end of the input, so the first alternative that matches decides.
\<close>

definition nonzero_digit :: "char \<Rightarrow> bool" where
  "nonzero_digit c = (c \<in> set ''123456789'')"

fun month_tok :: "string \<Rightarrow> (nat \<times> string) option" where
  "month_tok (a # b # r) =
     (if a = CHR ''1'' \<and> b \<in> set ''012'' then Some (py_int [a, b], r)
      else if a = CHR ''0'' \<and> nonzero_digit b then Some (py_int [a, b], r)
      else if nonzero_digit a then Some (py_int [a], b # r)
      else None)"
| "month_tok [a] = (if nonzero_digit a then Some (py_int [a], []) else None)"
| "month_tok [] = None"

fun day_tok :: "string \<Rightarrow> (nat \<times> string) option" where
  "day_tok (a # b # r) =
     (if a = CHR ''3'' \<and> b \<in> set ''01'' then Some (py_int [a, b], r)
      else if a \<in> set ''12'' \<and> isdigit b then Some (py_int [a, b], r)
      else if a = CHR ''0'' \<and> nonzero_digit b then Some (py_int [a, b], r)
      else if nonzero_digit a then Some (py_int [a], b # r)
      else if a = CHR '' '' \<and> nonzero_digit b then Some (py_int [b], r)
      else None)"
| "day_tok [a] = (if nonzero_digit a then Some (py_int [a], []) else None)"
| "day_tok [] = None"

definition leap_year :: "nat \<Rightarrow> bool" where
  "leap_year y = (y mod 4 = 0 \<and> (y mod 100 \<noteq> 0 \<or> y mod 400 = 0))"

definition days_in_month :: "nat \<Rightarrow> nat \<Rightarrow> nat" where
  "days_in_month y m =
     (if m = 2 then (if leap_year y then 29 else 28)
      else if m \<in> {4, 6, 9, 11} then 30 else 31)"

type_synonym date = "nat \<times> nat \<times> nat"

definition strptime :: "string \<Rightarrow> error + date" where
  "strptime x =
     (if 5 \<le> length x \<and> list_all isdigit (take 4 x) \<and> x ! 4 = CHR ''-'' then
        (case month_tok (drop 5 x) of
           None \<Rightarrow> Inl ValueError
         | Some (m, r) \<Rightarrow>
             (case r of
                [] \<Rightarrow> Inl ValueError
              | h # r' \<Rightarrow>
                  if h \<noteq> CHR ''-'' then Inl ValueError
                  else (case day_tok r' of
                          None \<Rightarrow> Inl ValueError
                        | Some (d, rest) \<Rightarrow>
                            if rest \<noteq> [] then Inl ValueError
                            else if py_int (take 4 x) < 1 \<or> days_in_month (py_int (take 4 x)) m < d
                            then Inl ValueError
                            else Inr (py_int (take 4 x), m, d))))
      else Inl ValueError)"

fun date_less :: "date \<Rightarrow> date \<Rightarrow> bool" where
  "date_less (y1, m1, d1) (y2, m2, d2) =
     (y1 < y2 \<or> (y1 = y2 \<and> (m1 < m2 \<or> (m1 = m2 \<and> d1 < d2))))"

text \<open>
  \<^verbatim>\<open>max(dates, key=...)\<close>: the key of every element is computed (any failure aborts),
  an empty list is a \<^verbatim>\<open>ValueError\<close>, and the running maximum is replaced only by an
  element whose key is strictly greater, so the first of several maxima is returned.
\<close>

fun max_by_key :: "string \<times> date \<Rightarrow> (string \<times> date) list \<Rightarrow> string" where
  "max_by_key (x, kx) [] = x"
| "max_by_key (x, kx) ((y, ky) # r) =
     (if date_less kx ky then max_by_key (y, ky) r else max_by_key (x, kx) r)"

definition newest_date :: "string list \<Rightarrow> error + string" where
  "newest_date dates =
     (case emap strptime dates of
        Inl e \<Rightarrow> Inl e
      | Inr ks \<Rightarrow> (case zip dates ks of [] \<Rightarrow> Inl ValueError | p # ps \<Rightarrow> Inr (max_by_key p ps)))"

section \<open>Directory listing, parsing and grouping\<close>

text \<open>
  \<open>entries\<close> is what \<^verbatim>\<open>os.listdir(raw_data_path)\<close> returns. Both scripts keep the
  names ending in \<^verbatim>\<open>.txt\<close> and build \<^verbatim>\<open>parsed_files\<close> with the same dictionary
  comprehension, whose condition is the truth value of the parse result (\<^verbatim>\<open>None\<close> and
  the empty dictionary are false).
\<close>

definition txt_files :: "string list \<Rightarrow> string list" where
  "txt_files entries = filter (suffix ''.txt'') entries"

definition truthy :: "groupdict option \<Rightarrow> bool" where
  "truthy r = (case r of None \<Rightarrow> False | Some d \<Rightarrow> d \<noteq> [])"

definition parsed_files :: "string list \<Rightarrow> (string \<times> groupdict) list" where
  "parsed_files entries =
     foldl (\<lambda>d file. (case parse_filename file of
                         None \<Rightarrow> d
                       | Some m \<Rightarrow> if truthy (Some m) then dict_set file m d else d))
           [] (txt_files entries)"

text \<open>
  The batch tool's key is the tuple of the (name, value) pairs whose name is not
  excluded; \<^verbatim>\<open>grouped_files[key].append(file)\<close> on a \<^verbatim>\<open>defaultdict(list)\<close> appends to
  the group of an existing key and opens a new group at the end otherwise.
\<close>

definition group_key :: "string set \<Rightarrow> groupdict \<Rightarrow> groupdict" where
  "group_key excluded characteristics = filter (\<lambda>(k, v). k \<notin> excluded) characteristics"

fun group_append :: "'k \<Rightarrow> 'a \<Rightarrow> ('k \<times> 'a list) list \<Rightarrow> ('k \<times> 'a list) list" where
  "group_append key file [] = [(key, [file])]"
| "group_append key file ((k, fs) # g) =
     (if k = key then (k, fs @ [file]) # g else (k, fs) # group_append key file g)"

definition group_by_key ::
  "(groupdict \<Rightarrow> 'k) \<Rightarrow> (string \<times> groupdict) list \<Rightarrow> ('k \<times> string list) list" where
  "group_by_key key parsed = foldl (\<lambda>g (file, ch). group_append (key ch) file g) [] parsed"

definition batch_excluded :: "string set" where
  "batch_excluded = {''frequency_range'', ''datapoint_capture'', ''device_degradation'', ''date''}"

definition grouped_files :: "(string \<times> groupdict) list \<Rightarrow> (groupdict \<times> string list) list" where
  "grouped_files parsed = group_by_key (group_key batch_excluded) parsed"

section \<open>Numeric tables\<close>

text \<open>
  \<^verbatim>\<open>load_data\<close> reads a file through the operating system and \<^verbatim>\<open>pandas.read_csv\<close>; it
  is a parameter of the model, a function from a file name to the table read or to the
  exception raised. A table is its list of rows; a row is the value of the column
  \<^verbatim>\<open>Oscilator_frequency (Hz)\<close> and the values of the other columns in header order. The
  files of one run share one header, every cell is a number, and arithmetic on cells is
  exact: neither missing values nor the rounding of binary floating point is modelled.
\<close>

type_synonym row = "real \<times> real list"

type_synonym dataframe = "row list"

definition mean :: "real list \<Rightarrow> real" where
  "mean xs = sum_list xs / real (length xs)"

definition column :: "nat \<Rightarrow> real list list \<Rightarrow> real list" where
  "column j vs = map (\<lambda>v. v ! j) vs"

definition col_means :: "real list list \<Rightarrow> real list" where
  "col_means vs = (case vs of [] \<Rightarrow> [] | v # _ \<Rightarrow> map (\<lambda>j. mean (column j vs)) [0 ..< length v])"

text \<open>
  \<^verbatim>\<open>groupby("Oscilator_frequency (Hz)", as_index=False).mean()\<close>: one row for each
  distinct value of the key column, in ascending order of the key, holding the key and
  the mean of every other column over the rows with that key.
\<close>

definition cluster :: "real \<Rightarrow> dataframe \<Rightarrow> dataframe" where
  "cluster k df = filter (\<lambda>r. fst r = k) df"

definition groupby_mean :: "dataframe \<Rightarrow> dataframe" where
  "groupby_mean df = map (\<lambda>k. (k, col_means (map snd (cluster k df)))) (sort (remdups (map fst df)))"

definition combine_dataframes :: "dataframe list \<Rightarrow> error + dataframe" where
  "combine_dataframes dfs =
     (if dfs = [] then Inl ValueError
      else Inr (sort_key fst (groupby_mean (concat dfs))))"

section \<open>The batch tool's combine loop\<close>

datatype step = Skipped | Created string dataframe

definition required_ranges :: "string set" where
  "required_ranges = {''500k-5kHz'', ''5k-200Hz'', ''200-1Hz''}"

definition field :: "(string \<times> groupdict) list \<Rightarrow> string \<Rightarrow> string \<Rightarrow> error + string" where
  "field parsed name file = ebind (lookup parsed file) (\<lambda>characteristics. lookup characteristics name)"

definition new_filename ::
  "string \<Rightarrow> string \<Rightarrow> string \<Rightarrow> string \<Rightarrow> nat \<Rightarrow> nat \<Rightarrow> string \<Rightarrow> string \<Rightarrow> string" where
  "new_filename newest chemistry pixel configuration highest_degradation total_datapoint_capture
      offset amplitude =
     newest @ ''_'' @ chemistry @ ''-'' @ pixel @ ''_'' @ configuration @ ''-config_'' @
     str_nat highest_degradation @ ''daydeg_'' @ ''500k-1Hz'' @ ''_'' @
     str_nat total_datapoint_capture @ ''p-1s_'' @ offset @ ''_'' @ amplitude @ ''Vpk.txt''"

definition combine_group ::
  "(string \<Rightarrow> error + dataframe) \<Rightarrow> (string \<times> groupdict) list \<Rightarrow> groupdict \<times> string list
     \<Rightarrow> error + step" where
  "combine_group load_data parsed g =
     (case g of (key, files) \<Rightarrow>
      ebind (emap (field parsed ''frequency_range'') files) (\<lambda>frequency_ranges.
      if set frequency_ranges = required_ranges then
        ebind (emap load_data files) (\<lambda>dfs.
        ebind (combine_dataframes dfs) (\<lambda>combined_df.
        ebind (emap (field parsed ''datapoint_capture'') files) (\<lambda>datapoint_captures.
        ebind (emap (field parsed ''date'') files) (\<lambda>dates.
        ebind (newest_date dates) (\<lambda>newest.
        ebind (emap (field parsed ''device_degradation'') files) (\<lambda>device_degradations.
        ebind (lookup key ''device_chemistry'') (\<lambda>chemistry.
        ebind (lookup key ''device_pixel'') (\<lambda>pixel.
        ebind (lookup key ''device_configuration'') (\<lambda>configuration.
        ebind (lookup key ''voltage_offset'') (\<lambda>offset.
        ebind (lookup key ''voltage_amplitude'') (\<lambda>amplitude.
          Inr (Created
                 (new_filename newest chemistry pixel configuration
                    (find_highest_degradation device_degradations)
                    (sum_datapoint_capture datapoint_captures) offset amplitude)
                 combined_df))))))))))))
      else Inr Skipped))"

text \<open>
  The loop over the groups: the files written so far, and the exception that ended the
  run if one did.
\<close>

fun combine_all ::
  "(string \<Rightarrow> error + dataframe) \<Rightarrow> (string \<times> groupdict) list \<Rightarrow> (groupdict \<times> string list) list
     \<Rightarrow> (string \<times> dataframe) list \<times> error option" where
  "combine_all load_data parsed [] = ([], None)"
| "combine_all load_data parsed (g # gs) =
     (case combine_group load_data parsed g of
        Inl e \<Rightarrow> ([], Some e)
      | Inr Skipped \<Rightarrow> combine_all load_data parsed gs
      | Inr (Created name df) \<Rightarrow>
          (case combine_all load_data parsed gs of (written, e) \<Rightarrow> ((name, df) # written, e)))"

definition batch_main ::
  "(string \<Rightarrow> error + dataframe) \<Rightarrow> string list \<Rightarrow> (string \<times> dataframe) list \<times> error option" where
  "batch_main load_data entries =
     combine_all load_data (parsed_files entries) (grouped_files (parsed_files entries))"

section \<open>The viewer's statistics\<close>

text \<open>
  \<^verbatim>\<open>group_data\<close> of \<^verbatim>\<open>freq-filter-dataviz.py\<close>. Its key is the tuple of the values of
  the fields that are not excluded. Each loaded table gets three more columns: the
  amplitude as a number (\<open>to_float\<close> is Python's \<^verbatim>\<open>float\<close> on the captured text, a
  parameter of the model), the chemistry, and \<^verbatim>\<open>Normalized_Vout (%)\<close> computed from the
  column \<^verbatim>\<open>Demod_4_X_A (V)\<close>. \<open>channel_names\<close> are the header's names of the columns
  other than the frequency, in order.
\<close>

definition value_key :: "string set \<Rightarrow> groupdict \<Rightarrow> string list" where
  "value_key excluded metadata = map snd (filter (\<lambda>(k, v). k \<notin> excluded) metadata)"

definition stats_excluded :: "string set" where
  "stats_excluded =
     {''device_chemistry'', ''date'', ''device_degradation'', ''device_pixel'', ''voltage_amplitude''}"

record vrow =
  frequency :: real
  channels :: "real list"
  voltage_amplitude :: real
  device_chemistry :: string
  normalized_vout :: real

fun index_of :: "'a \<Rightarrow> 'a list \<Rightarrow> nat option" where
  "index_of x [] = None"
| "index_of x (y # ys) = (if x = y then Some 0 else map_option Suc (index_of x ys))"

definition normalized :: "real \<Rightarrow> real \<Rightarrow> real" where
  "normalized demod amplitude = (demod / (amplitude / 1.4142)) * 100"

definition annotate ::
  "string list \<Rightarrow> (string \<Rightarrow> error + real) \<Rightarrow> groupdict \<Rightarrow> dataframe \<Rightarrow> error + vrow list" where
  "annotate channel_names to_float metadata df =
     ebind (lookup metadata ''voltage_amplitude'') (\<lambda>a.
     ebind (to_float a) (\<lambda>amplitude.
     ebind (lookup metadata ''device_chemistry'') (\<lambda>chemistry.
       (case index_of ''Demod_4_X_A (V)'' channel_names of
          None \<Rightarrow> Inl KeyError
        | Some i \<Rightarrow>
            Inr (map (\<lambda>(f, ch).
                   \<lparr>frequency = f, channels = ch, voltage_amplitude = amplitude,
                    device_chemistry = chemistry,
                    normalized_vout = normalized (ch ! i) amplitude\<rparr>) df)))))"

fun grouped_data ::
  "(string \<Rightarrow> error + dataframe) \<Rightarrow> (string \<Rightarrow> error + real) \<Rightarrow> string list \<Rightarrow>
   (string \<times> groupdict) list \<Rightarrow> (string list \<times> vrow list list) list \<Rightarrow>
   error + (string list \<times> vrow list list) list" where
  "grouped_data load_data to_float channel_names [] acc = Inr acc"
| "grouped_data load_data to_float channel_names ((file, metadata) # rest) acc =
     ebind (load_data file) (\<lambda>df.
     ebind (annotate channel_names to_float metadata df) (\<lambda>rows.
       grouped_data load_data to_float channel_names rest
         (group_append (value_key stats_excluded metadata) rows acc)))"

text \<open>
  The second loop: per group, the concatenated rows are grouped by (chemistry,
  amplitude, frequency) and every numeric column gets its mean and its sample standard
  deviation (pandas' \<^verbatim>\<open>std\<close>, with divisor \<open>n - 1\<close>), which is a missing value for fewer
  than two rows: \<open>None\<close> here.
\<close>

type_synonym cell = "string \<times> real \<times> real"

definition cell_key :: "vrow \<Rightarrow> cell" where
  "cell_key r = (device_chemistry r, voltage_amplitude r, frequency r)"

definition numeric_values :: "vrow \<Rightarrow> real list" where
  "numeric_values r = frequency r # channels r @ [voltage_amplitude r, normalized_vout r]"

definition cell_rows :: "cell \<Rightarrow> vrow list \<Rightarrow> vrow list" where
  "cell_rows c rows = filter (\<lambda>r. cell_key r = c) rows"

definition sample_std :: "real list \<Rightarrow> real option" where
  "sample_std xs =
     (if length xs < 2 then None
      else Some (sqrt (sum_list (map (\<lambda>x. (x - mean xs)\<^sup>2) xs) / real (length xs - 1))))"

definition col_stds :: "real list list \<Rightarrow> real option list" where
  "col_stds vs =
     (case vs of [] \<Rightarrow> [] | v # _ \<Rightarrow> map (\<lambda>j. sample_std (column j vs)) [0 ..< length v])"

definition mean_df :: "vrow list \<Rightarrow> (cell \<times> real list) list" where
  "mean_df rows =
     map (\<lambda>c. (c, col_means (map numeric_values (cell_rows c rows))))
       (sort (remdups (map cell_key rows)))"

definition std_df :: "vrow list \<Rightarrow> (cell \<times> real option list) list" where
  "std_df rows =
     map (\<lambda>c. (c, col_stds (map numeric_values (cell_rows c rows))))
       (sort (remdups (map cell_key rows)))"

definition group_data ::
  "(string \<Rightarrow> error + dataframe) \<Rightarrow> (string \<Rightarrow> error + real) \<Rightarrow> string list \<Rightarrow>
   (string \<times> groupdict) list \<Rightarrow>
   error + (string list \<times> (cell \<times> real list) list \<times> (cell \<times> real option list) list) list" where
  "group_data load_data to_float channel_names parsed =
     ebind (grouped_data load_data to_float channel_names parsed []) (\<lambda>grouped.
       Inr (map (\<lambda>(key, dfs). (key, mean_df (concat dfs), std_df (concat dfs))) grouped))"

section \<open>Auxiliary notions for the statements\<close>

text \<open>
  The definitions of this section are not part of the program. They describe what the
  pattern accepts in a direct way: \<open>split_at x s\<close> cuts \<open>s\<close> at its first \<open>x\<close> into a
  non-empty token and the rest, \<open>head_fields\<close> reads the date, chemistry and pixel,
  \<open>tail_fields\<close> reads what follows the configuration, and \<open>parse_direct\<close> tries the
  lengths of the configuration from the shortest on, as the lazy quantifier does.
  Lemma \<open>parse_filename_direct\<close> proves that \<open>parse_filename\<close> computes \<open>parse_direct\<close>.
\<close>

definition date_shape :: "string \<Rightarrow> bool" where
  "date_shape d =
     (length d = 10 \<and> list_all isdigit (take 4 d) \<and> d ! 4 = CHR ''-'' \<and>
      list_all isdigit (take 2 (drop 5 d)) \<and> d ! 7 = CHR ''-'' \<and> list_all isdigit (drop 8 d))"

definition split_at :: "char \<Rightarrow> string \<Rightarrow> (string \<times> string) option" where
  "split_at x s =
     (if takeWhile (\<lambda>y. y \<noteq> x) s \<noteq> [] \<and> dropWhile (\<lambda>y. y \<noteq> x) s \<noteq> []
      then Some (takeWhile (\<lambda>y. y \<noteq> x) s, tl (dropWhile (\<lambda>y. y \<noteq> x) s)) else None)"

definition tail_fields :: "string \<Rightarrow> (groupdict \<times> string) option" where
  "tail_fields s =
     (if prefix ''-config_'' s then
        (case split_at CHR ''_'' (drop (length ''-config_'') s) of None \<Rightarrow> None | Some (deg, s1) \<Rightarrow>
        (case split_at CHR ''_'' s1 of None \<Rightarrow> None | Some (fr, s2) \<Rightarrow>
        (case split_at CHR ''_'' s2 of None \<Rightarrow> None | Some (cap, s3) \<Rightarrow>
        (case split_at CHR ''_'' s3 of None \<Rightarrow> None | Some (off, s4) \<Rightarrow>
        (case split_at CHR ''V'' s4 of None \<Rightarrow> None | Some (amp, s5) \<Rightarrow>
           if prefix ''pk'' s5
           then Some ([(''device_degradation'', deg), (''frequency_range'', fr),
                       (''datapoint_capture'', cap), (''voltage_offset'', off),
                       (''voltage_amplitude'', amp)], drop (length ''pk'') s5)
           else None)))))
      else None)"

definition tail_results :: "string \<Rightarrow> groupdict \<Rightarrow> mstate list" where
  "tail_results s c = (case tail_fields s of None \<Rightarrow> [] | Some (fs, rest) \<Rightarrow> [(rest, c @ fs)])"

definition conf_lengths :: "string \<Rightarrow> nat list" where
  "conf_lengths s = [1 ..< Suc (length (takeWhile (\<lambda>c. c \<noteq> CHR 0x0A) s))]"

definition head_fields :: "string \<Rightarrow> (groupdict \<times> string) option" where
  "head_fields f =
     (if 10 \<le> length f \<and> date_shape (take 10 f) \<and> prefix ''_'' (drop 10 f) then
        (case split_at CHR ''-'' (drop 11 f) of None \<Rightarrow> None | Some (chem, s1) \<Rightarrow>
        (case split_at CHR ''_'' s1 of None \<Rightarrow> None | Some (pix, s2) \<Rightarrow>
           Some ([(''date'', take 10 f), (''device_chemistry'', chem), (''device_pixel'', pix)], s2)))
      else None)"

definition parse_direct :: "string \<Rightarrow> groupdict option" where
  "parse_direct f =
     (case head_fields f of None \<Rightarrow> None | Some (hs, s2) \<Rightarrow>
     (case find (\<lambda>k. tail_fields (drop k s2) \<noteq> None) (conf_lengths s2) of None \<Rightarrow> None | Some k \<Rightarrow>
        map_option (\<lambda>(fs, rest). hs @ [(''device_configuration'', take k s2)] @ fs)
          (tail_fields (drop k s2))))"

definition field_names :: "string list" where
  "field_names =
     [''date'', ''device_chemistry'', ''device_pixel'', ''device_configuration'',
      ''device_degradation'', ''frequency_range'', ''datapoint_capture'', ''voltage_offset'',
      ''voltage_amplitude'']"

definition parse_step :: "(string \<times> groupdict) list \<Rightarrow> string \<Rightarrow> (string \<times> groupdict) list" where
  "parse_step d fl =
     (case parse_filename fl of None \<Rightarrow> d
      | Some m \<Rightarrow> if truthy (Some m) then dict_set fl m d else d)"

definition members :: "('c \<Rightarrow> 'k) \<Rightarrow> ('a \<times> 'c) list \<Rightarrow> 'k \<Rightarrow> 'a list" where
  "members key ps k = map fst (filter (\<lambda>p. key (snd p) = k) ps)"

definition group_step :: "('c \<Rightarrow> 'k) \<Rightarrow> ('k \<times> 'a list) list \<Rightarrow> 'a \<times> 'c \<Rightarrow> ('k \<times> 'a list) list" where
  "group_step key g p = group_append (key (snd p)) (fst p) g"

definition same_group :: "(groupdict \<Rightarrow> 'k) \<Rightarrow> (string \<times> groupdict) list \<Rightarrow> string \<Rightarrow> string \<Rightarrow> bool" where
  "same_group key parsed f f' =
     (\<exists>g \<in> set (group_by_key key parsed). f \<in> set (snd g) \<and> f' \<in> set (snd g))"

definition field_of :: "string \<Rightarrow> string \<Rightarrow> string" where
  "field_of name fl =
     (case parse_filename fl of None \<Rightarrow> []
      | Some m \<Rightarrow> (case map_of m name of None \<Rightarrow> [] | Some v \<Rightarrow> v))"

section \<open>The pattern, read directly\<close>

lemma cmatch_Digit: "cmatch Digit = isdigit"
  by (rule ext) simp

lemma cmatch_NotChar: "cmatch (NotChar x) = (\<lambda>c. c \<noteq> x)"
  by (rule ext) simp

lemma cmatch_AnyChar: "cmatch AnyChar = (\<lambda>c. c \<noteq> CHR 0x0A)"
  by (rule ext) simp

lemma prefix_single: "prefix [x] s \<longleftrightarrow> (s \<noteq> [] \<and> hd s = x)"
  by (cases s) auto

lemma concat_map_empty: "(\<And>x. x \<in> set xs \<Longrightarrow> f x = []) \<Longrightarrow> concat (map f xs) = []"
  by (induction xs) auto

lemma run_Group_Plus:
  "run (Group nm (Plus cl)) (s, c) =
     map (\<lambda>k. (drop k s, c @ [(nm, take k s)])) (rev [1 ..< Suc (length (takeWhile (cmatch cl) s))])"
proof -
  have "k \<le> length s" if "k < Suc (length (takeWhile (cmatch cl) s))" for k
    using that length_takeWhile_le [of "cmatch cl" s] by linarith
  then show ?thesis
    by (auto simp: min_def)
qed

lemma run_Group_PlusLazy:
  "run (Group nm (PlusLazy cl)) (s, c) =
     map (\<lambda>k. (drop k s, c @ [(nm, take k s)])) [1 ..< Suc (length (takeWhile (cmatch cl) s))]"
proof -
  have "k \<le> length s" if "k < Suc (length (takeWhile (cmatch cl) s))" for k
    using that length_takeWhile_le [of "cmatch cl" s] by linarith
  then show ?thesis
    by (auto simp: min_def)
qed

lemma greedy_field:
  assumes K: "\<And>s' c'. s' = [] \<or> hd s' \<noteq> x \<Longrightarrow> K (s', c') = []"
  shows "concat (map K (run (Group nm (Plus (NotChar x))) (s, c))) =
     (if takeWhile (\<lambda>y. y \<noteq> x) s = [] then []
      else K (dropWhile (\<lambda>y. y \<noteq> x) s, c @ [(nm, takeWhile (\<lambda>y. y \<noteq> x) s)]))"
proof -
  let ?P = "\<lambda>y. y \<noteq> x"
  let ?n = "length (takeWhile ?P s)"
  let ?F = "\<lambda>k. K (drop k s, c @ [(nm, take k s)])"
  have short: "?F k = []" if "k < ?n" for k
  proof -
    have "k < length s" using that length_takeWhile_le [of ?P s] by linarith
    moreover have "s ! k \<noteq> x"
      using that nth_mem [of k "takeWhile ?P s"] set_takeWhileD [of "s ! k" ?P s]
      by (simp add: takeWhile_nth)
    ultimately show ?thesis
      by (intro K) (simp add: hd_drop_conv_nth)
  qed
  have full: "?F ?n = K (dropWhile ?P s, c @ [(nm, takeWhile ?P s)])"
    by (simp add: dropWhile_eq_drop [symmetric] takeWhile_eq_take [symmetric])
  have unfold: "concat (map K (run (Group nm (Plus (NotChar x))) (s, c))) =
      concat (map ?F (rev [1 ..< Suc ?n]))"
    by (simp only: run_Group_Plus cmatch_NotChar map_map comp_def)
  show ?thesis
  proof (cases "?n = 0")
    case True
    then show ?thesis unfolding unfold by simp
  next
    case False
    then have "1 \<le> ?n"
      by linarith
    then have "rev [1 ..< Suc ?n] = ?n # rev [1 ..< ?n]"
      by simp
    moreover have "concat (map ?F (rev [1 ..< ?n])) = []"
      by (rule concat_map_empty) (use short in auto)
    ultimately have "concat (map ?F (rev [1 ..< Suc ?n])) = ?F ?n"
      by simp
    with False full show ?thesis unfolding unfold by simp
  qed
qed

lemma run_Seq: "run (Seq r1 r2) st = concat (map (run r2) (run r1 st))"
  by simp

lemma run_Lit: "run (Lit l) (s, c) = (if prefix l s then [(drop (length l) s, c)] else [])"
  by simp

lemma run_Lit_Seq:
  "run (Seq (Lit l) r) (s, c) = (if prefix l s then run r (drop (length l) s, c) else [])"
  by simp

lemma run_Rep_Seq:
  "run (Seq (Rep n cl) r) (s, c) =
     (if n \<le> length s \<and> list_all (cmatch cl) (take n s) then run r (drop n s, c) else [])"
  by (auto simp: run.simps)

lemma run_Rep:
  "run (Rep n cl) (s, c) =
     (if n \<le> length s \<and> list_all (cmatch cl) (take n s) then [(drop n s, c)] else [])"
  by (auto simp: run.simps)

declare run.simps [simp del]

lemma run_Lit_Cons_empty: "s' = [] \<or> hd s' \<noteq> x \<Longrightarrow> run (Lit (x # l)) (s', c') = []"
  by (cases s') (auto simp: run_Lit)

lemma run_Lit_Seq_Cons_empty:
  "s' = [] \<or> hd s' \<noteq> x \<Longrightarrow> run (Seq (Lit (x # l)) r) (s', c') = []"
  by (cases s') (auto simp: run_Lit_Seq)

lemma prefix_Cons_dropWhile:
  "prefix (x # l) (dropWhile (\<lambda>y. y \<noteq> x) s) \<longleftrightarrow>
     dropWhile (\<lambda>y. y \<noteq> x) s \<noteq> [] \<and> prefix l (tl (dropWhile (\<lambda>y. y \<noteq> x) s))"
proof (cases "dropWhile (\<lambda>y. y \<noteq> x) s")
  case Nil
  show ?thesis unfolding Nil by simp
next
  case (Cons a u)
  then have "a = x"
    using hd_dropWhile [of "\<lambda>y. y \<noteq> x" s] by simp
  show ?thesis unfolding Cons using \<open>a = x\<close> by simp
qed

lemma run_field:
  "run (Seq (Group nm (Plus (NotChar x))) (Seq (Lit (x # l)) r)) (s, c) =
     (case split_at x s of
        None \<Rightarrow> []
      | Some (t, u) \<Rightarrow> if prefix l u then run r (drop (length l) u, c @ [(nm, t)]) else [])"
proof -
  have "run (Seq (Group nm (Plus (NotChar x))) (Seq (Lit (x # l)) r)) (s, c) =
      (if takeWhile (\<lambda>y. y \<noteq> x) s = [] then []
       else run (Seq (Lit (x # l)) r)
              (dropWhile (\<lambda>y. y \<noteq> x) s, c @ [(nm, takeWhile (\<lambda>y. y \<noteq> x) s)]))"
    unfolding run_Seq [of "Group nm (Plus (NotChar x))"]
    by (rule greedy_field) (rule run_Lit_Seq_Cons_empty)
  then show ?thesis
    unfolding split_at_def run_Lit_Seq prefix_Cons_dropWhile
    by (cases "dropWhile (\<lambda>y. y \<noteq> x) s") (simp_all add: drop_Suc)
qed

lemma run_last_field:
  "run (Seq (Group nm (Plus (NotChar x))) (Lit (x # l))) (s, c) =
     (case split_at x s of
        None \<Rightarrow> []
      | Some (t, u) \<Rightarrow> if prefix l u then [(drop (length l) u, c @ [(nm, t)])] else [])"
proof -
  have "run (Seq (Group nm (Plus (NotChar x))) (Lit (x # l))) (s, c) =
      (if takeWhile (\<lambda>y. y \<noteq> x) s = [] then []
       else run (Lit (x # l))
              (dropWhile (\<lambda>y. y \<noteq> x) s, c @ [(nm, takeWhile (\<lambda>y. y \<noteq> x) s)]))"
    unfolding run_Seq [of "Group nm (Plus (NotChar x))"]
    by (rule greedy_field) (rule run_Lit_Cons_empty)
  then show ?thesis
    unfolding split_at_def run_Lit prefix_Cons_dropWhile
    by (cases "dropWhile (\<lambda>y. y \<noteq> x) s") (simp_all add: drop_Suc)
qed

lemma run_date_re:
  "run date_re (s, c) = (if 10 \<le> length s \<and> date_shape (take 10 s) then [(drop 10 s, c)] else [])"
proof -
  have *: "run date_re (s, c) =
     (if 4 \<le> length s \<and> list_all isdigit (take 4 s) then
        (if prefix ''-'' (drop 4 s) then
           (if 2 \<le> length (drop 5 s) \<and> list_all isdigit (take 2 (drop 5 s)) then
              (if prefix ''-'' (drop 7 s) then
                 (if 2 \<le> length (drop 8 s) \<and> list_all isdigit (take 2 (drop 8 s)) then [(drop 10 s, c)] else [])
               else [])
            else [])
         else [])
      else [])"
    unfolding date_re_def seqs.simps run_Rep_Seq run_Lit_Seq run_Rep
    by (simp add: cmatch_Digit)
  show ?thesis
    unfolding * 
    by (auto simp: date_shape_def prefix_single hd_drop_conv_nth min_def take_drop)
qed

lemma run_tail_re:
  "run tail_re (s, c) = (case tail_fields s of None \<Rightarrow> [] | Some (fs, rest) \<Rightarrow> [(rest, c @ fs)])"
  unfolding tail_re_def seqs.simps run_Lit_Seq run_field run_last_field tail_fields_def
  by (simp split: option.splits prod.splits)

lemma run_tail_results: "run tail_re (s, c) = tail_results s c"
  by (simp add: run_tail_re tail_results_def)

lemma run_Group_date:
  "run (Seq (Group ''date'' date_re) r) (s, c) =
     (if 10 \<le> length s \<and> date_shape (take 10 s)
      then run r (drop 10 s, c @ [(''date'', take 10 s)]) else [])"
  by (auto simp: run_Seq run.simps(5) run_date_re)

lemma run_conf:
  "run (Seq (Group nm (PlusLazy AnyChar)) r) (s, c) =
     concat (map (\<lambda>k. run r (drop k s, c @ [(nm, take k s)])) (conf_lengths s))"
  by (simp only: run_Seq run_Group_PlusLazy cmatch_AnyChar conf_lengths_def map_map comp_def)

lemma first_concat_find:
  "(case concat (map (\<lambda>k. case g k of None \<Rightarrow> [] | Some y \<Rightarrow> [h k y]) ks) of
      [] \<Rightarrow> None | z # _ \<Rightarrow> Some z) =
   (case find (\<lambda>k. g k \<noteq> None) ks of None \<Rightarrow> None | Some k \<Rightarrow> map_option (h k) (g k))"
  by (induction ks) (auto split: option.splits)

lemma run_pattern:
  "run pattern (f, []) =
     (case head_fields f of None \<Rightarrow> [] | Some (hs, s2) \<Rightarrow>
        concat (map (\<lambda>k. tail_results (drop k s2) (hs @ [(''device_configuration'', take k s2)]))
                (conf_lengths s2)))"
  unfolding pattern_def seqs.simps run_Group_date run_Lit_Seq run_field run_conf run_tail_results
    head_fields_def
  by (auto split: option.splits prod.splits)

lemma parse_filename_direct: "parse_filename f = parse_direct f"
proof (cases "head_fields f")
  case None
  then show ?thesis
    by (simp add: parse_filename_def re_match_def run_pattern parse_direct_def)
next
  case (Some p)
  obtain hs s2 where p: "p = (hs, s2)" by (cases p)
  let ?g = "\<lambda>k. tail_fields (drop k s2)"
  let ?h = "\<lambda>k y. (snd y, hs @ [(''device_configuration'', take k s2)] @ fst y)"
  have tr: "tail_results (drop k s2) (hs @ [(''device_configuration'', take k s2)]) =
      (case ?g k of None \<Rightarrow> [] | Some y \<Rightarrow> [?h k y])" for k
    by (simp add: tail_results_def split: option.splits)
  have "re_match pattern f =
      map_option snd (case concat (map (\<lambda>k. case ?g k of None \<Rightarrow> [] | Some y \<Rightarrow> [?h k y])
                                    (conf_lengths s2)) of [] \<Rightarrow> None | z # _ \<Rightarrow> Some z)"
  proof -
    have "run pattern (f, []) =
        concat (map (\<lambda>k. case ?g k of None \<Rightarrow> [] | Some y \<Rightarrow> [?h k y]) (conf_lengths s2))"
      by (simp add: run_pattern Some p tr)
    moreover have "(case L of [] \<Rightarrow> None | (rest, caps) # _ \<Rightarrow> Some caps) =
        map_option snd (case L of [] \<Rightarrow> None | z # _ \<Rightarrow> Some z)" for L :: "mstate list"
      by (cases L) auto
    ultimately show ?thesis
      unfolding re_match_def by (simp only:)
  qed
  also have "\<dots> = map_option snd
      (case find (\<lambda>k. ?g k \<noteq> None) (conf_lengths s2) of None \<Rightarrow> None
       | Some k \<Rightarrow> map_option (?h k) (?g k))"
    by (simp only: first_concat_find)
  finally show ?thesis
    by (simp add: parse_filename_def parse_direct_def Some p option.map_comp comp_def
        split_def split: option.splits)
qed

lemma split_at_nonempty: "split_at x s \<noteq> Some ([], u)"
  by (auto simp: split_at_def split: if_splits)

lemma tail_fields_names:
  "tail_fields s = Some (fs, rest) \<Longrightarrow> map fst fs = drop 4 field_names \<and> (\<forall>kv \<in> set fs. snd kv \<noteq> [])"
  by (auto simp: tail_fields_def field_names_def split_at_nonempty split: if_splits option.splits)

lemma head_fields_names:
  "head_fields f = Some (hs, s2) \<Longrightarrow> map fst hs = take 3 field_names \<and> (\<forall>kv \<in> set hs. snd kv \<noteq> [])"
  by (auto simp: head_fields_def field_names_def split_at_nonempty split: if_splits option.splits)

lemma find_conf_lengths: "find P (conf_lengths s) = Some k \<Longrightarrow> 1 \<le> k \<and> k \<le> length s \<and> P k"
proof -
  assume a: "find P (conf_lengths s) = Some k"
  then have "k \<in> set (conf_lengths s)" "P k"
    by (auto simp: find_Some_iff)
  moreover have "length (takeWhile (\<lambda>c. c \<noteq> CHR 0x0A) s) \<le> length s"
    by (rule length_takeWhile_le)
  ultimately show ?thesis
    by (auto simp: conf_lengths_def)
qed

lemma parse_filename_names:
  assumes "parse_filename f = Some m"
  shows "map fst m = field_names \<and> (\<forall>kv \<in> set m. snd kv \<noteq> [])"
proof -
  from assms obtain hs s2 k fs rest where
    h: "head_fields f = Some (hs, s2)" and
    k: "find (\<lambda>k. tail_fields (drop k s2) \<noteq> None) (conf_lengths s2) = Some k" and
    t: "tail_fields (drop k s2) = Some (fs, rest)" and
    m: "m = hs @ [(''device_configuration'', take k s2)] @ fs"
    by (auto simp: parse_filename_direct parse_direct_def split: option.splits)
  from find_conf_lengths [OF k] have "take k s2 \<noteq> []"
    by auto
  with head_fields_names [OF h] tail_fields_names [OF t] show ?thesis
    by (auto simp: m field_names_def)
qed

lemma parsed_files_skip:
  "parse_filename f = None \<Longrightarrow> parsed_files (xs @ f # ys) = parsed_files (xs @ ys)"
  by (simp add: parsed_files_def txt_files_def)


text \<open>
  C5. A file name either matches the whole pattern, and then the result has exactly the
  nine named fields, each with a non-empty text, or the parser returns \<open>None\<close>; a name
  that does not match raises nothing and leaves no trace: the parsed files, the batch
  run and the viewer's statistics are those of the directory without it.
\<close>

theorem parse_filename_all_or_nothing:
  "(parse_filename f = None \<or>
     (\<exists>m. parse_filename f = Some m \<and> map fst m = field_names \<and> (\<forall>kv \<in> set m. snd kv \<noteq> []))) \<and>
   (parse_filename f = None \<longrightarrow>
      parsed_files (xs @ f # ys) = parsed_files (xs @ ys) \<and>
      batch_main load_data (xs @ f # ys) = batch_main load_data (xs @ ys) \<and>
      group_data load_data to_float channel_names (parsed_files (xs @ f # ys)) =
        group_data load_data to_float channel_names (parsed_files (xs @ ys)))"
proof (cases "parse_filename f")
  case None
  then show ?thesis
    by (simp add: parsed_files_skip batch_main_def)
next
  case (Some m)
  with parse_filename_names [OF Some] show ?thesis
    by simp
qed

theorem parse_filename_all_or_nothing_witness:
  "parse_filename ''notes.txt'' = None \<and>
   parsed_files
     [''2023-01-05_PEDOT-A1_planar-config_3daydeg_500k-5kHz_100p-1s_0V_1.5Vpk.txt'', ''notes.txt''] =
   parsed_files [''2023-01-05_PEDOT-A1_planar-config_3daydeg_500k-5kHz_100p-1s_0V_1.5Vpk.txt''] \<and>
   parse_filename ''2023-01-05_PEDOT-A1_planar-config_3daydeg_500k-5kHz_100p-1s_0V_1.5Vpk.txt'' =
     Some [(''date'', ''2023-01-05''), (''device_chemistry'', ''PEDOT''), (''device_pixel'', ''A1''),
           (''device_configuration'', ''planar''), (''device_degradation'', ''3daydeg''),
           (''frequency_range'', ''500k-5kHz''), (''datapoint_capture'', ''100p-1s''),
           (''voltage_offset'', ''0V''), (''voltage_amplitude'', ''1.5'')]"
proof -
  have none: "parse_filename ''notes.txt'' = None"
    by code_simp
  have some: "parse_filename ''2023-01-05_PEDOT-A1_planar-config_3daydeg_500k-5kHz_100p-1s_0V_1.5Vpk.txt'' =
     Some [(''date'', ''2023-01-05''), (''device_chemistry'', ''PEDOT''), (''device_pixel'', ''A1''),
           (''device_configuration'', ''planar''), (''device_degradation'', ''3daydeg''),
           (''frequency_range'', ''500k-5kHz''), (''datapoint_capture'', ''100p-1s''),
           (''voltage_offset'', ''0V''), (''voltage_amplitude'', ''1.5'')]"
    by code_simp
  from none some
    parse_filename_all_or_nothing [of "''notes.txt''"
      "[''2023-01-05_PEDOT-A1_planar-config_3daydeg_500k-5kHz_100p-1s_0V_1.5Vpk.txt'']" "[]"]
  show ?thesis
    by simp
qed

section \<open>Dictionaries and groups\<close>

lemma map_of_dict_set: "map_of (dict_set k v d) = (map_of d)(k \<mapsto> v)"
  by (induction d) (auto simp: fun_eq_iff)

lemma map_fst_dict_set:
  "map fst (dict_set k v d) = (if k \<in> set (map fst d) then map fst d else map fst d @ [k])"
proof (induction d)
  case Nil
  show ?case by simp
next
  case (Cons p d)
  obtain a b where p: "p = (a, b)" by (cases p)
  show ?case
    unfolding p using Cons.IH by (cases "a = k") simp_all
qed

lemma keys_dict_set: "fst ` set (dict_set k v d) = insert k (fst ` set d)"
proof -
  have "set (map fst (dict_set k v d)) = insert k (set (map fst d))"
    unfolding map_fst_dict_set by (simp add: insert_absorb)
  then show ?thesis
    by simp
qed

lemma distinct_dict_set: "distinct (map fst d) \<Longrightarrow> distinct (map fst (dict_set k v d))"
  by (simp add: map_fst_dict_set)

lemma dict_set_fresh: "k \<notin> fst ` set d \<Longrightarrow> dict_set k v d = d @ [(k, v)]"
  by (induction d) auto

lemma parsed_files_foldl: "parsed_files entries = foldl parse_step [] (txt_files entries)"
proof -
  have "parse_step = (\<lambda>d fl. case parse_filename fl of None \<Rightarrow> d
      | Some m \<Rightarrow> if truthy (Some m) then dict_set fl m d else d)"
    by (intro ext) (simp add: parse_step_def)
  then show ?thesis
    by (simp add: parsed_files_def)
qed

lemma parse_step_eq:
  "parse_step d fl = (case parse_filename fl of None \<Rightarrow> d | Some m \<Rightarrow> dict_set fl m d)"
  using parse_filename_names [of fl]
  by (auto simp: parse_step_def truthy_def field_names_def split: option.splits)

lemma foldl_parse_step:
  "distinct (map fst d) \<Longrightarrow>
   distinct (map fst (foldl parse_step d fs)) \<and>
   map_of (foldl parse_step d fs) =
     (\<lambda>f. if f \<in> set fs \<and> parse_filename f \<noteq> None then parse_filename f else map_of d f)"
proof (induction fs arbitrary: d)
  case Nil
  then show ?case by simp
next
  case (Cons a fs)
  have d': "distinct (map fst (parse_step d a))"
    using Cons.prems by (auto simp: parse_step_eq distinct_dict_set split: option.splits)
  have m': "map_of (parse_step d a) =
      (\<lambda>f. if f = a \<and> parse_filename f \<noteq> None then parse_filename f else map_of d f)"
    by (auto simp: parse_step_eq map_of_dict_set fun_eq_iff split: option.splits)
  show ?case
    using Cons.IH [OF d'] by (auto simp: m' fun_eq_iff)
qed

lemma distinct_parsed_files: "distinct (map fst (parsed_files entries))"
  using foldl_parse_step [of "[]" "txt_files entries"] by (simp add: parsed_files_foldl)

lemma map_of_parsed_files:
  "map_of (parsed_files entries) f =
     (if suffix ''.txt'' f \<and> f \<in> set entries then parse_filename f else None)"
  using foldl_parse_step [of "[]" "txt_files entries"]
  by (auto simp: parsed_files_foldl txt_files_def)

lemma parsed_files_mem:
  "(f, m) \<in> set (parsed_files entries) \<longleftrightarrow>
     suffix ''.txt'' f \<and> f \<in> set entries \<and> parse_filename f = Some m"
proof -
  have "(f, m) \<in> set (parsed_files entries) \<longleftrightarrow> map_of (parsed_files entries) f = Some m"
    using distinct_parsed_files [of entries] by simp
  then show ?thesis
    unfolding map_of_parsed_files by auto
qed

lemma keys_parsed_files:
  "fst ` set (parsed_files entries) =
     {f \<in> set entries. suffix ''.txt'' f \<and> parse_filename f \<noteq> None}"
proof -
  have "f \<in> fst ` set (parsed_files entries) \<longleftrightarrow>
      f \<in> set entries \<and> suffix ''.txt'' f \<and> parse_filename f \<noteq> None" for f
  proof -
    have "f \<in> fst ` set (parsed_files entries) \<longleftrightarrow> (\<exists>m. (f, m) \<in> set (parsed_files entries))"
      by force
    then show ?thesis
      unfolding parsed_files_mem by auto
  qed
  then show ?thesis
    by blast
qed

lemma map_of_group_append:
  "map_of (group_append key x g) k =
     (if k = key then Some ((case map_of g key of None \<Rightarrow> [] | Some fs \<Rightarrow> fs) @ [x])
      else map_of g k)"
  by (induction g) auto

lemma map_fst_group_append:
  "map fst (group_append key x g) =
     (if key \<in> set (map fst g) then map fst g else map fst g @ [key])"
proof (induction g)
  case Nil
  show ?case by simp
next
  case (Cons p g)
  obtain a b where p: "p = (a, b)" by (cases p)
  show ?case
    unfolding p using Cons.IH by (cases "a = key") simp_all
qed

lemma group_by_key_foldl: "group_by_key key ps = foldl (group_step key) [] ps"
  unfolding group_by_key_def
  by (rule foldl_cong) (auto simp: group_step_def)

lemma foldl_group_step:
  "distinct (map fst g) \<Longrightarrow>
   distinct (map fst (foldl (group_step key) g ps)) \<and>
   map_of (foldl (group_step key) g ps) k =
     (case map_of g k of
        None \<Rightarrow> if members key ps k = [] then None else Some (members key ps k)
      | Some fs \<Rightarrow> Some (fs @ members key ps k))"
proof (induction ps arbitrary: g)
  case Nil
  then show ?case by (simp add: members_def split: option.splits)
next
  case (Cons p ps)
  have d: "distinct (map fst (group_step key g p))"
    using Cons.prems by (simp add: group_step_def map_fst_group_append)
  show ?case
    using Cons.IH [OF d]
    by (auto simp: group_step_def map_of_group_append members_def split: option.splits)
qed

lemma distinct_group_by_key: "distinct (map fst (group_by_key key ps))"
  using foldl_group_step [of "[]" key ps] by (simp add: group_by_key_foldl)

lemma map_of_group_by_key:
  "map_of (group_by_key key ps) k =
     (if members key ps k = [] then None else Some (members key ps k))"
  using foldl_group_step [of "[]" key ps k] by (simp add: group_by_key_foldl)

lemma group_by_key_mem:
  "(k, fs) \<in> set (group_by_key key ps) \<longleftrightarrow> fs \<noteq> [] \<and> fs = members key ps k"
proof -
  have "(k, fs) \<in> set (group_by_key key ps) \<longleftrightarrow> map_of (group_by_key key ps) k = Some fs"
    using distinct_group_by_key [of key ps] by simp
  then show ?thesis
    unfolding map_of_group_by_key by auto
qed

lemma set_members: "set (members key ps k) = {f. \<exists>ch. (f, ch) \<in> set ps \<and> key ch = k}"
  by (force simp: members_def)

lemma distinct_members: "distinct (map fst ps) \<Longrightarrow> distinct (members key ps k)"
  by (simp add: members_def distinct_map_filter)


lemma same_group_iff:
  "same_group key ps f f' \<longleftrightarrow>
     (\<exists>ch ch'. (f, ch) \<in> set ps \<and> (f', ch') \<in> set ps \<and> key ch = key ch')"
proof
  assume "same_group key ps f f'"
  then obtain k fs where g: "(k, fs) \<in> set (group_by_key key ps)" "f \<in> set fs" "f' \<in> set fs"
    by (auto simp: same_group_def)
  then have "f \<in> set (members key ps k)" "f' \<in> set (members key ps k)"
    by (simp_all add: group_by_key_mem)
  then obtain ch ch' where "(f, ch) \<in> set ps" "key ch = k" "(f', ch') \<in> set ps" "key ch' = k"
    unfolding set_members by auto
  then have "(f, ch) \<in> set ps \<and> (f', ch') \<in> set ps \<and> key ch = key ch'"
    by simp
  then show "\<exists>ch ch'. (f, ch) \<in> set ps \<and> (f', ch') \<in> set ps \<and> key ch = key ch'"
    by (intro exI)
next
  assume "\<exists>ch ch'. (f, ch) \<in> set ps \<and> (f', ch') \<in> set ps \<and> key ch = key ch'"
  then obtain ch ch' where c: "(f, ch) \<in> set ps" "(f', ch') \<in> set ps" "key ch = key ch'"
    by blast
  then have m: "f \<in> set (members key ps (key ch))" "f' \<in> set (members key ps (key ch))"
    unfolding set_members by auto
  then have "members key ps (key ch) \<noteq> []"
    by auto
  then have "(key ch, members key ps (key ch)) \<in> set (group_by_key key ps)"
    by (simp add: group_by_key_mem)
  moreover have "f \<in> set (snd (key ch, members key ps (key ch))) \<and>
      f' \<in> set (snd (key ch, members key ps (key ch)))"
    using m by simp
  ultimately show "same_group key ps f f'"
    unfolding same_group_def by (rule rev_bexI)
qed

lemma group_of_file:
  assumes d: "distinct (map fst ps)" and p: "(f, ch) \<in> set ps"
  shows "(key ch, members key ps (key ch)) \<in> set (group_by_key key ps)"
    and "f \<in> set (members key ps (key ch))"
    and "g \<in> set (group_by_key key ps) \<Longrightarrow> f \<in> set (snd g) \<Longrightarrow> g = (key ch, members key ps (key ch))"
proof -
  show m: "f \<in> set (members key ps (key ch))"
    unfolding set_members using p by auto
  then have "members key ps (key ch) \<noteq> []"
    by auto
  then show "(key ch, members key ps (key ch)) \<in> set (group_by_key key ps)"
    by (simp add: group_by_key_mem)
  assume g: "g \<in> set (group_by_key key ps)" "f \<in> set (snd g)"
  obtain k fs where kfs: "g = (k, fs)" by (cases g)
  from g have fs: "fs = members key ps k" and "f \<in> set (members key ps k)"
    by (simp_all add: kfs group_by_key_mem)
  then obtain ch' where "(f, ch') \<in> set ps" "key ch' = k"
    unfolding set_members by auto
  then have "ch' = ch"
    using eq_key_imp_eq_value [OF d _ p] by simp
  with \<open>key ch' = k\<close> fs kfs show "g = (key ch, members key ps (key ch))"
    by simp
qed

text \<open>
  C6. For a fixed set of excluded field names the groups partition the parsed files:
  the group keys are distinct, every parsed file is in exactly one group, the one keyed
  by its retained fields, and occurs once in it; and whether two files share a group
  does not depend on the order in which the files are listed.
\<close>

theorem grouping_is_partition:
  "distinct (map fst parsed) \<longrightarrow>
     distinct (map fst (group_by_key (group_key E) parsed)) \<and>
     (\<forall>p \<in> set parsed.
        (\<exists>!g. g \<in> set (group_by_key (group_key E) parsed) \<and> fst p \<in> set (snd g)) \<and>
        (\<exists>fs. (group_key E (snd p), fs) \<in> set (group_by_key (group_key E) parsed) \<and>
              fst p \<in> set fs \<and> distinct fs)) \<and>
     (\<forall>parsed'. set parsed' = set parsed \<longrightarrow>
        (\<forall>f f'. same_group (group_key E) parsed' f f' = same_group (group_key E) parsed f f'))"
proof (intro impI conjI ballI allI)
  show "distinct (map fst (group_by_key (group_key E) parsed))"
    by (rule distinct_group_by_key)
next
  fix p assume d: "distinct (map fst parsed)" and "p \<in> set parsed"
  then have p: "(fst p, snd p) \<in> set parsed"
    by simp
  note G = group_of_file [OF d p, where key = "group_key E"]
  show "\<exists>!g. g \<in> set (group_by_key (group_key E) parsed) \<and> fst p \<in> set (snd g)"
  proof (rule ex1I)
    show "(group_key E (snd p), members (group_key E) parsed (group_key E (snd p)))
        \<in> set (group_by_key (group_key E) parsed) \<and>
        fst p \<in> set (snd (group_key E (snd p), members (group_key E) parsed (group_key E (snd p))))"
      using G(1,2) by simp
  next
    fix g assume "g \<in> set (group_by_key (group_key E) parsed) \<and> fst p \<in> set (snd g)"
    then show "g = (group_key E (snd p), members (group_key E) parsed (group_key E (snd p)))"
      using G(3) by blast
  qed
  show "\<exists>fs. (group_key E (snd p), fs) \<in> set (group_by_key (group_key E) parsed) \<and>
      fst p \<in> set fs \<and> distinct fs"
  proof (intro exI conjI)
    show "(group_key E (snd p), members (group_key E) parsed (group_key E (snd p)))
        \<in> set (group_by_key (group_key E) parsed)"
      by (rule G(1))
    show "fst p \<in> set (members (group_key E) parsed (group_key E (snd p)))"
      by (rule G(2))
    show "distinct (members (group_key E) parsed (group_key E (snd p)))"
      by (rule distinct_members [OF d])
  qed
next
  fix parsed' f f'
  assume "set parsed' = set parsed"
  then show "same_group (group_key E) parsed' f f' = same_group (group_key E) parsed f f'"
    by (simp add: same_group_iff)
qed


theorem grouping_is_partition_witness:
  "distinct (map fst (parsed_files
     [''2023-01-05_P3HT-A1_top-config_3daydeg_500k-5kHz_100p_0V_1Vpk.txt'',
      ''2023-01-06_P3HT-A1_top-config_4daydeg_5k-200Hz_50p_0V_1Vpk.txt'',
      ''2023-01-05_P3HT-B2_top-config_3daydeg_500k-5kHz_100p_0V_1Vpk.txt''])) \<and>
   group_by_key (group_key batch_excluded) (parsed_files
     [''2023-01-05_P3HT-A1_top-config_3daydeg_500k-5kHz_100p_0V_1Vpk.txt'',
      ''2023-01-06_P3HT-A1_top-config_4daydeg_5k-200Hz_50p_0V_1Vpk.txt'',
      ''2023-01-05_P3HT-B2_top-config_3daydeg_500k-5kHz_100p_0V_1Vpk.txt'']) =
     [([(''device_chemistry'', ''P3HT''), (''device_pixel'', ''A1''),
        (''device_configuration'', ''top''), (''voltage_offset'', ''0V''),
        (''voltage_amplitude'', ''1'')],
       [''2023-01-05_P3HT-A1_top-config_3daydeg_500k-5kHz_100p_0V_1Vpk.txt'',
        ''2023-01-06_P3HT-A1_top-config_4daydeg_5k-200Hz_50p_0V_1Vpk.txt'']),
      ([(''device_chemistry'', ''P3HT''), (''device_pixel'', ''B2''),
        (''device_configuration'', ''top''), (''voltage_offset'', ''0V''),
        (''voltage_amplitude'', ''1'')],
       [''2023-01-05_P3HT-B2_top-config_3daydeg_500k-5kHz_100p_0V_1Vpk.txt''])] \<and>
   same_group (group_key batch_excluded) (parsed_files
     [''2023-01-05_P3HT-B2_top-config_3daydeg_500k-5kHz_100p_0V_1Vpk.txt'',
      ''2023-01-06_P3HT-A1_top-config_4daydeg_5k-200Hz_50p_0V_1Vpk.txt'',
      ''2023-01-05_P3HT-A1_top-config_3daydeg_500k-5kHz_100p_0V_1Vpk.txt''])
     ''2023-01-05_P3HT-A1_top-config_3daydeg_500k-5kHz_100p_0V_1Vpk.txt''
     ''2023-01-06_P3HT-A1_top-config_4daydeg_5k-200Hz_50p_0V_1Vpk.txt'' \<and>
   same_group (group_key batch_excluded) (parsed_files
     [''2023-01-05_P3HT-A1_top-config_3daydeg_500k-5kHz_100p_0V_1Vpk.txt'',
      ''2023-01-06_P3HT-A1_top-config_4daydeg_5k-200Hz_50p_0V_1Vpk.txt'',
      ''2023-01-05_P3HT-B2_top-config_3daydeg_500k-5kHz_100p_0V_1Vpk.txt''])
     ''2023-01-05_P3HT-A1_top-config_3daydeg_500k-5kHz_100p_0V_1Vpk.txt''
     ''2023-01-06_P3HT-A1_top-config_4daydeg_5k-200Hz_50p_0V_1Vpk.txt''"
proof -
  let ?L = "[''2023-01-05_P3HT-A1_top-config_3daydeg_500k-5kHz_100p_0V_1Vpk.txt'',
      ''2023-01-06_P3HT-A1_top-config_4daydeg_5k-200Hz_50p_0V_1Vpk.txt'',
      ''2023-01-05_P3HT-B2_top-config_3daydeg_500k-5kHz_100p_0V_1Vpk.txt'']"
  let ?L' = "[''2023-01-05_P3HT-B2_top-config_3daydeg_500k-5kHz_100p_0V_1Vpk.txt'',
      ''2023-01-06_P3HT-A1_top-config_4daydeg_5k-200Hz_50p_0V_1Vpk.txt'',
      ''2023-01-05_P3HT-A1_top-config_3daydeg_500k-5kHz_100p_0V_1Vpk.txt'']"
  have d: "distinct (map fst (parsed_files ?L))"
    by (rule distinct_parsed_files)
  have p': "set (parsed_files ?L') = set (parsed_files ?L)"
    by (auto simp: parsed_files_mem)
  have g: "group_by_key (group_key batch_excluded) (parsed_files ?L) =
     [([(''device_chemistry'', ''P3HT''), (''device_pixel'', ''A1''),
        (''device_configuration'', ''top''), (''voltage_offset'', ''0V''),
        (''voltage_amplitude'', ''1'')],
       [''2023-01-05_P3HT-A1_top-config_3daydeg_500k-5kHz_100p_0V_1Vpk.txt'',
        ''2023-01-06_P3HT-A1_top-config_4daydeg_5k-200Hz_50p_0V_1Vpk.txt'']),
      ([(''device_chemistry'', ''P3HT''), (''device_pixel'', ''B2''),
        (''device_configuration'', ''top''), (''voltage_offset'', ''0V''),
        (''voltage_amplitude'', ''1'')],
       [''2023-01-05_P3HT-B2_top-config_3daydeg_500k-5kHz_100p_0V_1Vpk.txt''])]"
    by code_simp
  have s: "same_group (group_key batch_excluded) (parsed_files ?L)
     ''2023-01-05_P3HT-A1_top-config_3daydeg_500k-5kHz_100p_0V_1Vpk.txt''
     ''2023-01-06_P3HT-A1_top-config_4daydeg_5k-200Hz_50p_0V_1Vpk.txt''"
    unfolding same_group_def g by simp
  from grouping_is_partition [of "parsed_files ?L" batch_excluded] d p'
  have "same_group (group_key batch_excluded) (parsed_files ?L')
     ''2023-01-05_P3HT-A1_top-config_3daydeg_500k-5kHz_100p_0V_1Vpk.txt''
     ''2023-01-06_P3HT-A1_top-config_4daydeg_5k-200Hz_50p_0V_1Vpk.txt'' =
     same_group (group_key batch_excluded) (parsed_files ?L)
     ''2023-01-05_P3HT-A1_top-config_3daydeg_500k-5kHz_100p_0V_1Vpk.txt''
     ''2023-01-06_P3HT-A1_top-config_4daydeg_5k-200Hz_50p_0V_1Vpk.txt''"
    by blast
  with d g s show ?thesis
    by simp
qed

section \<open>Files outside the grammar or without the suffix\<close>

lemma parsed_files_skip_suffix:
  "\<not> suffix ''.txt'' f \<Longrightarrow> parsed_files (xs @ f # ys) = parsed_files (xs @ ys)"
  by (simp add: parsed_files_def txt_files_def)

lemma group_files_parsed:
  assumes "g \<in> set (group_by_key key ps)" and "f \<in> set (snd g)"
  shows "\<exists>ch. (f, ch) \<in> set ps \<and> key ch = fst g"
proof -
  obtain k fs where g: "g = (k, fs)" by (cases g)
  from assms have "f \<in> set (members key ps k)"
    by (simp add: g group_by_key_mem)
  then show ?thesis
    unfolding set_members g by simp
qed

text \<open>
  C10. A directory entry whose name does not end in \<^verbatim>\<open>.txt\<close> is not among the text
  files, is not parsed, is in no group, and the batch run and the viewer's statistics
  are those of the directory without it, whether or not its name matches the grammar.
\<close>

theorem non_txt_entries_ignored:
  "\<not> suffix ''.txt'' f \<longrightarrow>
     f \<notin> set (txt_files entries) \<and>
     f \<notin> fst ` set (parsed_files entries) \<and>
     (\<forall>g \<in> set (grouped_files (parsed_files entries)). f \<notin> set (snd g)) \<and>
     parsed_files (xs @ f # ys) = parsed_files (xs @ ys) \<and>
     batch_main load_data (xs @ f # ys) = batch_main load_data (xs @ ys) \<and>
     group_data load_data to_float channel_names (parsed_files (xs @ f # ys)) =
       group_data load_data to_float channel_names (parsed_files (xs @ ys))"
proof (intro impI conjI ballI)
  assume n: "\<not> suffix ''.txt'' f"
  show "f \<notin> set (txt_files entries)"
    using n by (simp add: txt_files_def)
  show k: "f \<notin> fst ` set (parsed_files entries)"
    using n by (simp add: keys_parsed_files)
  show "parsed_files (xs @ f # ys) = parsed_files (xs @ ys)"
    using n by (rule parsed_files_skip_suffix)
  then show "batch_main load_data (xs @ f # ys) = batch_main load_data (xs @ ys)"
    by (simp add: batch_main_def)
  show "group_data load_data to_float channel_names (parsed_files (xs @ f # ys)) =
       group_data load_data to_float channel_names (parsed_files (xs @ ys))"
    using n by (simp add: parsed_files_skip_suffix)
  fix g assume "g \<in> set (grouped_files (parsed_files entries))"
  then show "f \<notin> set (snd g)"
    using group_files_parsed [of g "group_key batch_excluded" "parsed_files entries" f] n
    by (auto simp: grouped_files_def parsed_files_mem)
qed

theorem non_txt_entries_ignored_witness:
  "\<not> suffix ''.txt'' ''2023-01-05_P3HT-A1_top-config_3daydeg_500k-5kHz_100p_0V_1Vpk.csv'' \<and>
   parse_filename ''2023-01-05_P3HT-A1_top-config_3daydeg_500k-5kHz_100p_0V_1Vpk.csv'' =
     Some [(''date'', ''2023-01-05''), (''device_chemistry'', ''P3HT''), (''device_pixel'', ''A1''),
           (''device_configuration'', ''top''), (''device_degradation'', ''3daydeg''),
           (''frequency_range'', ''500k-5kHz''), (''datapoint_capture'', ''100p''),
           (''voltage_offset'', ''0V''), (''voltage_amplitude'', ''1'')] \<and>
   parsed_files [''2023-01-05_P3HT-A1_top-config_3daydeg_500k-5kHz_100p_0V_1Vpk.csv''] = [] \<and>
   batch_main (\<lambda>fl. Inr [(1000, [2])])
     [''2023-01-05_P3HT-A1_top-config_3daydeg_500k-5kHz_100p_0V_1Vpk.csv''] = ([], None)"
proof -
  have n: "\<not> suffix ''.txt'' ''2023-01-05_P3HT-A1_top-config_3daydeg_500k-5kHz_100p_0V_1Vpk.csv''"
    by code_simp
  have p: "parse_filename ''2023-01-05_P3HT-A1_top-config_3daydeg_500k-5kHz_100p_0V_1Vpk.csv'' =
     Some [(''date'', ''2023-01-05''), (''device_chemistry'', ''P3HT''), (''device_pixel'', ''A1''),
           (''device_configuration'', ''top''), (''device_degradation'', ''3daydeg''),
           (''frequency_range'', ''500k-5kHz''), (''datapoint_capture'', ''100p''),
           (''voltage_offset'', ''0V''), (''voltage_amplitude'', ''1'')]"
    by code_simp
  have e: "parsed_files [] = []" "batch_main (\<lambda>fl. Inr [(1000, [2])]) [] = ([], None)"
    by (simp_all add: parsed_files_def txt_files_def batch_main_def grouped_files_def
        group_by_key_def)
  from n
    non_txt_entries_ignored [of "''2023-01-05_P3HT-A1_top-config_3daydeg_500k-5kHz_100p_0V_1Vpk.csv''"
      "[]" "[]" "[]" "\<lambda>fl. Inr [(1000, [2])]"]
  have "parsed_files [''2023-01-05_P3HT-A1_top-config_3daydeg_500k-5kHz_100p_0V_1Vpk.csv''] =
      parsed_files [] \<and>
    batch_main (\<lambda>fl. Inr [(1000, [2])])
      [''2023-01-05_P3HT-A1_top-config_3daydeg_500k-5kHz_100p_0V_1Vpk.csv''] =
    batch_main (\<lambda>fl. Inr [(1000, [2])]) []"
    by simp
  with n p e show ?thesis
    by simp
qed


section \<open>The combine loop\<close>

lemma emap_Inr: "(\<And>x. x \<in> set xs \<Longrightarrow> f x = Inr (g x)) \<Longrightarrow> emap f xs = Inr (map g xs)"
  by (induction xs) auto

lemma field_parsed:
  assumes p: "(fl, m) \<in> set (parsed_files entries)" and n: "name \<in> set field_names"
  shows "field (parsed_files entries) name fl = Inr (field_of name fl)"
proof -
  from p have pf: "parse_filename fl = Some m"
    by (simp add: parsed_files_mem)
  from p have "map_of (parsed_files entries) fl = Some m"
    using distinct_parsed_files [of entries] by simp
  moreover from parse_filename_names [OF pf] n have "name \<in> fst ` set m"
    by (metis list.set_map)
  then obtain v where "map_of m name = Some v"
    by (metis domD dom_map_of_conv_image_fst)
  ultimately show ?thesis
    by (simp add: field_def lookup_def ebind_def field_of_def pf)
qed

lemma group_fields:
  assumes g: "g \<in> set (grouped_files (parsed_files entries))" and n: "name \<in> set field_names"
  shows "emap (field (parsed_files entries) name) (snd g) = Inr (map (field_of name) (snd g))"
proof (rule emap_Inr)
  fix fl assume "fl \<in> set (snd g)"
  with g obtain ch where "(fl, ch) \<in> set (parsed_files entries)"
    using group_files_parsed [of g "group_key batch_excluded" "parsed_files entries" fl]
    by (auto simp: grouped_files_def)
  then show "field (parsed_files entries) name fl = Inr (field_of name fl)"
    using n by (rule field_parsed)
qed

lemma ebind_not_Skipped: "(\<And>v. f v \<noteq> Inr Skipped) \<Longrightarrow> ebind m f \<noteq> Inr Skipped"
  by (cases m) (simp_all add: ebind_def)

lemma combine_group_cases:
  "combine_group load_data parsed (key, files) =
     ebind (emap (field parsed ''frequency_range'') files) (\<lambda>frequency_ranges.
       if set frequency_ranges = required_ranges
       then ebind (emap load_data files) (\<lambda>dfs. ebind (combine_dataframes dfs) (\<lambda>combined_df.
            ebind (emap (field parsed ''datapoint_capture'') files) (\<lambda>datapoint_captures.
            ebind (emap (field parsed ''date'') files) (\<lambda>dates.
            ebind (newest_date dates) (\<lambda>newest.
            ebind (emap (field parsed ''device_degradation'') files) (\<lambda>device_degradations.
            ebind (lookup key ''device_chemistry'') (\<lambda>chemistry.
            ebind (lookup key ''device_pixel'') (\<lambda>pixel.
            ebind (lookup key ''device_configuration'') (\<lambda>configuration.
            ebind (lookup key ''voltage_offset'') (\<lambda>offset.
            ebind (lookup key ''voltage_amplitude'') (\<lambda>amplitude.
              Inr (Created
                     (new_filename newest chemistry pixel configuration
                        (find_highest_degradation device_degradations)
                        (sum_datapoint_capture datapoint_captures) offset amplitude)
                     combined_df))))))))))))
       else Inr Skipped)"
  by (simp add: combine_group_def)

lemma combine_group_Skipped_iff:
  assumes "emap (field parsed ''frequency_range'') files = Inr rs"
  shows "combine_group load_data parsed (key, files) = Inr Skipped \<longleftrightarrow> set rs \<noteq> required_ranges"
proof (cases "set rs = required_ranges")
  case True
  have "combine_group load_data parsed (key, files) \<noteq> Inr Skipped"
    unfolding combine_group_cases assms
    by (simp add: ebind_def True split: sum.splits)
  with True show ?thesis by simp
next
  case False
  then show ?thesis
    unfolding combine_group_cases assms by (simp add: ebind_def)
qed

lemma combine_all_skip:
  "combine_group load_data parsed g = Inr Skipped \<Longrightarrow>
   combine_all load_data parsed (gs1 @ g # gs2) = combine_all load_data parsed (gs1 @ gs2)"
  by (induction gs1) (auto split: sum.splits step.splits prod.splits)


text \<open>
  C1. For every group of the batch tool, the combination step is entered exactly when
  the set of the members' frequency ranges is the required set of three; any other
  group is skipped, and the run is the one without that group: it writes no file for it.
\<close>

theorem combine_iff_required_ranges:
  "(key, files) \<in> set (grouped_files (parsed_files entries)) \<longrightarrow>
     ((combine_group load_data (parsed_files entries) (key, files) \<noteq> Inr Skipped) =
        (set (map (field_of ''frequency_range'') files) = required_ranges)) \<and>
     (set (map (field_of ''frequency_range'') files) \<noteq> required_ranges \<longrightarrow>
        combine_group load_data (parsed_files entries) (key, files) = Inr Skipped \<and>
        combine_all load_data (parsed_files entries) (gs1 @ (key, files) # gs2) =
          combine_all load_data (parsed_files entries) (gs1 @ gs2))"
proof (intro impI)
  assume g: "(key, files) \<in> set (grouped_files (parsed_files entries))"
  have "emap (field (parsed_files entries) ''frequency_range'') files =
      Inr (map (field_of ''frequency_range'') files)"
    using group_fields [OF g, of "''frequency_range''"] by (simp add: field_names_def)
  note S = combine_group_Skipped_iff [OF this, of load_data key]
  show "((combine_group load_data (parsed_files entries) (key, files) \<noteq> Inr Skipped) =
        (set (map (field_of ''frequency_range'') files) = required_ranges)) \<and>
     (set (map (field_of ''frequency_range'') files) \<noteq> required_ranges \<longrightarrow>
        combine_group load_data (parsed_files entries) (key, files) = Inr Skipped \<and>
        combine_all load_data (parsed_files entries) (gs1 @ (key, files) # gs2) =
          combine_all load_data (parsed_files entries) (gs1 @ gs2))"
    using S combine_all_skip [of load_data "parsed_files entries" "(key, files)" gs1 gs2]
    by blast
qed

theorem combine_iff_required_ranges_witness:
  "grouped_files (parsed_files
     [''2023-01-05_P3HT-A1_top-config_3daydeg_500k-5kHz_100p_0V_1Vpk.txt'',
      ''2023-01-06_P3HT-A1_top-config_4daydeg_5k-200Hz_50p_0V_1Vpk.txt'',
      ''2023-01-07_P3HT-A1_top-config_5daydeg_200-1Hz_100p_0V_1Vpk.txt'',
      ''2023-01-05_P3HT-B2_top-config_3daydeg_500k-5kHz_100p_0V_1Vpk.txt'']) =
   [([(''device_chemistry'', ''P3HT''), (''device_pixel'', ''A1''),
      (''device_configuration'', ''top''), (''voltage_offset'', ''0V''),
      (''voltage_amplitude'', ''1'')],
     [''2023-01-05_P3HT-A1_top-config_3daydeg_500k-5kHz_100p_0V_1Vpk.txt'',
      ''2023-01-06_P3HT-A1_top-config_4daydeg_5k-200Hz_50p_0V_1Vpk.txt'',
      ''2023-01-07_P3HT-A1_top-config_5daydeg_200-1Hz_100p_0V_1Vpk.txt'']),
    ([(''device_chemistry'', ''P3HT''), (''device_pixel'', ''B2''),
      (''device_configuration'', ''top''), (''voltage_offset'', ''0V''),
      (''voltage_amplitude'', ''1'')],
     [''2023-01-05_P3HT-B2_top-config_3daydeg_500k-5kHz_100p_0V_1Vpk.txt''])] \<and>
   combine_group (\<lambda>fl. Inr [(1000, [2])]) (parsed_files
     [''2023-01-05_P3HT-A1_top-config_3daydeg_500k-5kHz_100p_0V_1Vpk.txt'',
      ''2023-01-06_P3HT-A1_top-config_4daydeg_5k-200Hz_50p_0V_1Vpk.txt'',
      ''2023-01-07_P3HT-A1_top-config_5daydeg_200-1Hz_100p_0V_1Vpk.txt'',
      ''2023-01-05_P3HT-B2_top-config_3daydeg_500k-5kHz_100p_0V_1Vpk.txt''])
    ([(''device_chemistry'', ''P3HT''), (''device_pixel'', ''A1''),
      (''device_configuration'', ''top''), (''voltage_offset'', ''0V''),
      (''voltage_amplitude'', ''1'')],
     [''2023-01-05_P3HT-A1_top-config_3daydeg_500k-5kHz_100p_0V_1Vpk.txt'',
      ''2023-01-06_P3HT-A1_top-config_4daydeg_5k-200Hz_50p_0V_1Vpk.txt'',
      ''2023-01-07_P3HT-A1_top-config_5daydeg_200-1Hz_100p_0V_1Vpk.txt'']) \<noteq> Inr Skipped \<and>
   combine_group (\<lambda>fl. Inr [(1000, [2])]) (parsed_files
     [''2023-01-05_P3HT-A1_top-config_3daydeg_500k-5kHz_100p_0V_1Vpk.txt'',
      ''2023-01-06_P3HT-A1_top-config_4daydeg_5k-200Hz_50p_0V_1Vpk.txt'',
      ''2023-01-07_P3HT-A1_top-config_5daydeg_200-1Hz_100p_0V_1Vpk.txt'',
      ''2023-01-05_P3HT-B2_top-config_3daydeg_500k-5kHz_100p_0V_1Vpk.txt''])
    ([(''device_chemistry'', ''P3HT''), (''device_pixel'', ''B2''),
      (''device_configuration'', ''top''), (''voltage_offset'', ''0V''),
      (''voltage_amplitude'', ''1'')],
     [''2023-01-05_P3HT-B2_top-config_3daydeg_500k-5kHz_100p_0V_1Vpk.txt'']) = Inr Skipped"
proof -
  let ?L = "[''2023-01-05_P3HT-A1_top-config_3daydeg_500k-5kHz_100p_0V_1Vpk.txt'',
      ''2023-01-06_P3HT-A1_top-config_4daydeg_5k-200Hz_50p_0V_1Vpk.txt'',
      ''2023-01-07_P3HT-A1_top-config_5daydeg_200-1Hz_100p_0V_1Vpk.txt'',
      ''2023-01-05_P3HT-B2_top-config_3daydeg_500k-5kHz_100p_0V_1Vpk.txt'']"
  let ?g1 = "([(''device_chemistry'', ''P3HT''), (''device_pixel'', ''A1''),
      (''device_configuration'', ''top''), (''voltage_offset'', ''0V''),
      (''voltage_amplitude'', ''1'')],
     [''2023-01-05_P3HT-A1_top-config_3daydeg_500k-5kHz_100p_0V_1Vpk.txt'',
      ''2023-01-06_P3HT-A1_top-config_4daydeg_5k-200Hz_50p_0V_1Vpk.txt'',
      ''2023-01-07_P3HT-A1_top-config_5daydeg_200-1Hz_100p_0V_1Vpk.txt''])"
  let ?g2 = "([(''device_chemistry'', ''P3HT''), (''device_pixel'', ''B2''),
      (''device_configuration'', ''top''), (''voltage_offset'', ''0V''),
      (''voltage_amplitude'', ''1'')],
     [''2023-01-05_P3HT-B2_top-config_3daydeg_500k-5kHz_100p_0V_1Vpk.txt''])"
  have g: "grouped_files (parsed_files ?L) = [?g1, ?g2]"
    by code_simp
  have r1: "field_of ''frequency_range'' ''2023-01-05_P3HT-A1_top-config_3daydeg_500k-5kHz_100p_0V_1Vpk.txt'' = ''500k-5kHz''"
    by code_simp
  have r2: "field_of ''frequency_range'' ''2023-01-06_P3HT-A1_top-config_4daydeg_5k-200Hz_50p_0V_1Vpk.txt'' = ''5k-200Hz''"
    by code_simp
  have r3: "field_of ''frequency_range'' ''2023-01-07_P3HT-A1_top-config_5daydeg_200-1Hz_100p_0V_1Vpk.txt'' = ''200-1Hz''"
    by code_simp
  have r4: "field_of ''frequency_range'' ''2023-01-05_P3HT-B2_top-config_3daydeg_500k-5kHz_100p_0V_1Vpk.txt'' = ''500k-5kHz''"
    by code_simp
  have s1: "set (map (field_of ''frequency_range'') (snd ?g1)) = required_ranges"
    by (simp add: r1 r2 r3 required_ranges_def insert_commute)
  have s2: "set (map (field_of ''frequency_range'') (snd ?g2)) \<noteq> required_ranges"
    by (simp add: r4 required_ranges_def)
  have m1: "?g1 \<in> set (grouped_files (parsed_files ?L))"
    unfolding g by simp
  have m2: "?g2 \<in> set (grouped_files (parsed_files ?L))"
    unfolding g by simp
  from combine_iff_required_ranges [of "fst ?g1" "snd ?g1" ?L "\<lambda>fl. Inr [(1000, [2])]" "[]" "[]"] m1 s1
  have c1: "combine_group (\<lambda>fl. Inr [(1000, [2])]) (parsed_files ?L) ?g1 \<noteq> Inr Skipped"
    by simp
  from combine_iff_required_ranges [of "fst ?g2" "snd ?g2" ?L "\<lambda>fl. Inr [(1000, [2])]" "[]" "[]"] m2 s2
  have c2: "combine_group (\<lambda>fl. Inr [(1000, [2])]) (parsed_files ?L) ?g2 = Inr Skipped"
    by simp
  from g c1 c2 show ?thesis
    by simp
qed

section \<open>What a matching file name looks like\<close>

lemma split_at_Some:
  "split_at x s = Some (t, u) \<longleftrightarrow> t \<noteq> [] \<and> x \<notin> set t \<and> s = t @ x # u"
proof
  assume a: "split_at x s = Some (t, u)"
  let ?P = "\<lambda>y. y \<noteq> x"
  from a have t: "t = takeWhile ?P s" "t \<noteq> []" and u: "dropWhile ?P s \<noteq> []" "u = tl (dropWhile ?P s)"
    by (auto simp: split_at_def split: if_splits)
  from u(1) have "hd (dropWhile ?P s) = x"
    using hd_dropWhile [of ?P s] by simp
  with u have "dropWhile ?P s = x # u"
    by (cases "dropWhile ?P s") simp_all
  then have "s = t @ x # u"
    using takeWhile_dropWhile_id [of ?P s] t(1) by simp
  moreover have "x \<notin> set t"
    unfolding t(1) using set_takeWhileD [of x ?P s] by blast
  ultimately show "t \<noteq> [] \<and> x \<notin> set t \<and> s = t @ x # u"
    using t(2) by simp
next
  assume a: "t \<noteq> [] \<and> x \<notin> set t \<and> s = t @ x # u"
  then have "takeWhile (\<lambda>y. y \<noteq> x) s = t" "dropWhile (\<lambda>y. y \<noteq> x) s = x # u"
    by (auto simp: takeWhile_tail dropWhile_append3)
  with a show "split_at x s = Some (t, u)"
    by (simp add: split_at_def)
qed

lemma split_at_append:
  "t \<noteq> [] \<Longrightarrow> x \<notin> set t \<Longrightarrow> split_at x (t @ x # u) = Some (t, u)"
  by (simp add: split_at_Some)



lemma tail_fields_Some:
  "tail_fields s = Some (fs, rest) \<longleftrightarrow>
     (\<exists>deg fr cap off amp.
        deg \<noteq> [] \<and> CHR ''_'' \<notin> set deg \<and> fr \<noteq> [] \<and> CHR ''_'' \<notin> set fr \<and>
        cap \<noteq> [] \<and> CHR ''_'' \<notin> set cap \<and> off \<noteq> [] \<and> CHR ''_'' \<notin> set off \<and>
        amp \<noteq> [] \<and> CHR ''V'' \<notin> set amp \<and>
        s = ''-config_'' @ deg @ ''_'' @ fr @ ''_'' @ cap @ ''_'' @ off @ ''_'' @ amp @ ''Vpk'' @ rest \<and>
        fs = [(''device_degradation'', deg), (''frequency_range'', fr),
              (''datapoint_capture'', cap), (''voltage_offset'', off),
              (''voltage_amplitude'', amp)])"
proof
  assume a: "tail_fields s = Some (fs, rest)"
  then have p: "prefix ''-config_'' s"
    by (auto simp: tail_fields_def split: if_splits)
  then have s: "s = ''-config_'' @ drop 8 s"
    by (auto simp: prefix_def)
  from a p obtain deg s1 fr s2 cap s3 off s4 amp s5 where
    t: "split_at CHR ''_'' (drop (length ''-config_'') s) = Some (deg, s1)"
       "split_at CHR ''_'' s1 = Some (fr, s2)"
       "split_at CHR ''_'' s2 = Some (cap, s3)" "split_at CHR ''_'' s3 = Some (off, s4)"
       "split_at CHR ''V'' s4 = Some (amp, s5)" "prefix ''pk'' s5"
       "rest = drop (length ''pk'') s5" and
    fs: "fs = [(''device_degradation'', deg), (''frequency_range'', fr),
               (''datapoint_capture'', cap), (''voltage_offset'', off),
               (''voltage_amplitude'', amp)]"
    by (auto simp: tail_fields_def split: option.splits if_splits)
  from t(6,7) have s5: "s5 = ''pk'' @ rest"
    by (auto simp: prefix_def)
  from t(1-5) have "drop (length ''-config_'') s = deg @ ''_'' @ fr @ ''_'' @ cap @ ''_'' @ off @ ''_'' @ amp @ ''Vpk'' @ rest"
    unfolding split_at_Some s5 by simp
  then have "drop 8 s = deg @ ''_'' @ fr @ ''_'' @ cap @ ''_'' @ off @ ''_'' @ amp @ ''Vpk'' @ rest"
    by (simp add: eval_nat_numeral)
  with s have "s = ''-config_'' @ deg @ ''_'' @ fr @ ''_'' @ cap @ ''_'' @ off @ ''_'' @ amp @ ''Vpk'' @ rest"
    by metis
  with t(1-5) fs show "\<exists>deg fr cap off amp.
        deg \<noteq> [] \<and> CHR ''_'' \<notin> set deg \<and> fr \<noteq> [] \<and> CHR ''_'' \<notin> set fr \<and>
        cap \<noteq> [] \<and> CHR ''_'' \<notin> set cap \<and> off \<noteq> [] \<and> CHR ''_'' \<notin> set off \<and>
        amp \<noteq> [] \<and> CHR ''V'' \<notin> set amp \<and>
        s = ''-config_'' @ deg @ ''_'' @ fr @ ''_'' @ cap @ ''_'' @ off @ ''_'' @ amp @ ''Vpk'' @ rest \<and>
        fs = [(''device_degradation'', deg), (''frequency_range'', fr),
              (''datapoint_capture'', cap), (''voltage_offset'', off),
              (''voltage_amplitude'', amp)]"
    unfolding split_at_Some
    by (intro exI [of _ deg] exI [of _ fr] exI [of _ cap] exI [of _ off] exI [of _ amp]) simp
next
  assume "\<exists>deg fr cap off amp.
        deg \<noteq> [] \<and> CHR ''_'' \<notin> set deg \<and> fr \<noteq> [] \<and> CHR ''_'' \<notin> set fr \<and>
        cap \<noteq> [] \<and> CHR ''_'' \<notin> set cap \<and> off \<noteq> [] \<and> CHR ''_'' \<notin> set off \<and>
        amp \<noteq> [] \<and> CHR ''V'' \<notin> set amp \<and>
        s = ''-config_'' @ deg @ ''_'' @ fr @ ''_'' @ cap @ ''_'' @ off @ ''_'' @ amp @ ''Vpk'' @ rest \<and>
        fs = [(''device_degradation'', deg), (''frequency_range'', fr),
              (''datapoint_capture'', cap), (''voltage_offset'', off),
              (''voltage_amplitude'', amp)]"
  then obtain deg fr cap off amp where a:
      "deg \<noteq> []" "CHR ''_'' \<notin> set deg" "fr \<noteq> []" "CHR ''_'' \<notin> set fr"
      "cap \<noteq> []" "CHR ''_'' \<notin> set cap" "off \<noteq> []" "CHR ''_'' \<notin> set off"
      "amp \<noteq> []" "CHR ''V'' \<notin> set amp"
      "s = ''-config_'' @ deg @ ''_'' @ fr @ ''_'' @ cap @ ''_'' @ off @ ''_'' @ amp @ ''Vpk'' @ rest"
      "fs = [(''device_degradation'', deg), (''frequency_range'', fr),
              (''datapoint_capture'', cap), (''voltage_offset'', off),
              (''voltage_amplitude'', amp)]"
    by blast
  show "tail_fields s = Some (fs, rest)"
    unfolding tail_fields_def a(11) using a(1-10,12)
    by (simp add: split_at_append)
qed

lemma conf_lengths_mem:
  "k \<in> set (conf_lengths s) \<longleftrightarrow> 1 \<le> k \<and> k \<le> length s \<and> CHR 0x0A \<notin> set (take k s)"
proof -
  let ?P = "\<lambda>c. c \<noteq> CHR 0x0A"
  have "k \<le> length (takeWhile ?P s) \<longleftrightarrow> k \<le> length s \<and> CHR 0x0A \<notin> set (take k s)"
  proof
    assume a: "k \<le> length (takeWhile ?P s)"
    then have "take k s = take k (takeWhile ?P s)"
      by (metis append_take_drop_id takeWhile_dropWhile_id take_append diff_is_0_eq' take_0 append_Nil2 append.assoc same_append_eq length_take min.absorb2)
    then have "set (take k s) \<subseteq> set (takeWhile ?P s)"
      by (metis set_take_subset)
    then have "CHR 0x0A \<notin> set (take k s)"
      using set_takeWhileD [of "CHR 0x0A" ?P s] by blast
    with a length_takeWhile_le [of ?P s] show "k \<le> length s \<and> CHR 0x0A \<notin> set (take k s)"
      by simp
  next
    assume a: "k \<le> length s \<and> CHR 0x0A \<notin> set (take k s)"
    then have "takeWhile ?P (take k s @ drop k s) = take k s @ takeWhile ?P (drop k s)"
      by (intro takeWhile_append2) auto
    then have "length (takeWhile ?P s) = k + length (takeWhile ?P (drop k s))"
      using a by (simp add: min_def)
    then show "k \<le> length (takeWhile ?P s)"
      by simp
  qed
  then show ?thesis
    by (auto simp: conf_lengths_def)
qed

section \<open>Dates: shape at parsing, validity at combination\<close>











end
